theory Spec2Isabelle
  imports Complex_Main "HOL-Library.Sublist"
begin

section \<open>Python values and the exceptions the script can raise\<close>

text \<open>
  The script \<^verbatim>\<open>download_nft_images.py\<close> is embedded function by function. A Python
  \<^verbatim>\<open>str\<close> is a \<open>string\<close>, read as the UTF-8 bytes of the text: every separator the
  script and the standard library look for is ASCII, so splitting and searching agree with
  Python's code-point strings. An exception that reaches the caller is a value \<open>Inl e\<close>.
\<close>

datatype pyerror = AttributeError | TypeError | ValueError | OSError | IndexError

text \<open>
  What \<^verbatim>\<open>json.load\<close> returns. A float keeps only what the script can observe of it,
  whether it is zero. A JSON object is the association list of its members; \<open>map_of\<close>
  is the lookup of the parsed \<^verbatim>\<open>dict\<close>.
\<close>

datatype json =
    JNull
  | JBool bool
  | JInt int
  | JFloat bool
  | JStr string
  | JArr "json list"
  | JObj "(string \<times> json) list"

text \<open>Truthiness, as \<^verbatim>\<open>not x\<close> and \<^verbatim>\<open>if x\<close> test it. \<open>JFloat z\<close> is a float that is zero iff \<open>z\<close>.\<close>

fun truthy :: "json \<Rightarrow> bool" where
  "truthy JNull = False"
| "truthy (JBool b) = b"
| "truthy (JInt i) = (i \<noteq> 0)"
| "truthy (JFloat z) = (\<not> z)"
| "truthy (JStr s) = (s \<noteq> [])"
| "truthy (JArr xs) = (xs \<noteq> [])"
| "truthy (JObj kvs) = (kvs \<noteq> [])"

text \<open>\<^verbatim>\<open>x.get(key, default)\<close>: only a \<^verbatim>\<open>dict\<close> has the method.\<close>

fun py_get :: "json \<Rightarrow> string \<Rightarrow> json \<Rightarrow> pyerror + json" where
  "py_get (JObj kvs) k d = Inr (case map_of kvs k of None \<Rightarrow> d | Some v \<Rightarrow> v)"
| "py_get _ k d = Inl AttributeError"

text \<open>
  \<^verbatim>\<open>len(items)\<close> followed by \<^verbatim>\<open>for item in items\<close>: the sequence the loop walks. A list
  gives its elements, a dict its keys, a str its characters; \<^verbatim>\<open>len\<close> of anything else
  raises \<^verbatim>\<open>TypeError\<close>. The elements of a dict or of a str are strings, on which the first
  pass of the loop raises, so of these two only the empty sequence reaches the summary.
\<close>

fun py_iter :: "json \<Rightarrow> pyerror + json list" where
  "py_iter (JArr xs) = Inr xs"
| "py_iter (JObj kvs) = Inr (map (\<lambda>kv. JStr (fst kv)) kvs)"
| "py_iter (JStr s) = Inr (map (\<lambda>c. JStr [c]) s)"
| "py_iter _ = Inl TypeError"

section \<open>String operations of the standard library\<close>

text \<open>\<^verbatim>\<open>sub in s\<close> for strings.\<close>

fun contains :: "string \<Rightarrow> string \<Rightarrow> bool" where
  "contains sub [] = (sub = [])"
| "contains sub (c # cs) = (prefix sub (c # cs) \<or> contains sub cs)"

text \<open>
  \<^verbatim>\<open>s.split(sep)\<close> for a non-empty separator: scan from the left, cut at each occurrence,
  continue after it. \<open>acc\<close> holds the current piece, reversed.
\<close>

fun split_aux :: "string \<Rightarrow> string \<Rightarrow> string \<Rightarrow> string list" where
  "split_aux sep acc [] = [rev acc]"
| "split_aux sep acc (c # cs) =
     (if sep \<noteq> [] \<and> prefix sep (c # cs)
      then rev acc # split_aux sep [] (drop (length sep - 1) cs)
      else split_aux sep (c # acc) cs)"

definition py_split :: "string \<Rightarrow> string \<Rightarrow> string list" where
  "py_split s sep = split_aux sep [] s"

text \<open>\<^verbatim>\<open>xs[i]\<close> for a non-negative index; out of range raises \<^verbatim>\<open>IndexError\<close>.\<close>

definition py_index :: "'a list \<Rightarrow> nat \<Rightarrow> pyerror + 'a" where
  "py_index xs i = (if i < length xs then Inr (xs ! i) else Inl IndexError)"

text \<open>The part of \<open>s\<close> before, and after, the first occurrence of the character \<open>c\<close>.\<close>

definition before_char :: "char \<Rightarrow> string \<Rightarrow> string" where
  "before_char c s = takeWhile (\<lambda>x. x \<noteq> c) s"

definition after_char :: "char \<Rightarrow> string \<Rightarrow> string" where
  "after_char c s = drop 1 (dropWhile (\<lambda>x. x \<noteq> c) s)"

subsection \<open>\<^verbatim>\<open>urllib.parse.urlparse\<close>\<close>

text \<open>
  \<^verbatim>\<open>urlparse\<close> is modelled after CPython 3.11's \<^verbatim>\<open>urllib/parse.py\<close>, statement by
  statement, with the default arguments \<^verbatim>\<open>scheme=''\<close> and \<^verbatim>\<open>allow_fragments=True\<close>. Two
  checks of the library depend on tables that are no part of this development (the Unicode
  database and the \<^verbatim>\<open>ipaddress\<close> parser); they are parameters:
  \<^item> \<open>bracketed_host_ok h\<close>: \<^verbatim>\<open>_check_bracketed_host(h)\<close> does not raise;
  \<^item> \<open>nfkc_ok n\<close>: the NFKC test of \<^verbatim>\<open>_checknetloc(n)\<close> does not raise, for a
    non-ASCII netloc \<open>n\<close>.
  Neither is consulted for a URL whose authority part is ASCII without brackets.
\<close>

record pylib =
  bracketed_host_ok :: "string \<Rightarrow> bool"
  nfkc_ok :: "string \<Rightarrow> bool"

record ParseResult =
  scheme :: string
  netloc :: string
  path :: string
  params :: string
  query :: string
  fragment :: string

definition ascii_lowercase :: string where
  "ascii_lowercase = ''abcdefghijklmnopqrstuvwxyz''"

definition ascii_uppercase :: string where
  "ascii_uppercase = ''ABCDEFGHIJKLMNOPQRSTUVWXYZ''"

definition scheme_chars :: string where
  "scheme_chars = ascii_lowercase @ ascii_uppercase @ ''0123456789'' @ ''+-.''"

definition uses_params :: "string list" where
  "uses_params = ['''', ''ftp'', ''hdl'', ''prospero'', ''http'', ''imap'',
                  ''https'', ''shttp'', ''rtsp'', ''rtsps'', ''rtspu'', ''sip'',
                  ''sips'', ''mms'', ''sftp'', ''tel'']"

definition isascii :: "char \<Rightarrow> bool" where
  "isascii c = ((of_char c :: nat) < 128)"

text \<open>\<^verbatim>\<open>c.isascii() and c.isalpha()\<close>: an ASCII letter.\<close>

definition ascii_alpha :: "char \<Rightarrow> bool" where
  "ascii_alpha c = (c \<in> set (ascii_lowercase @ ascii_uppercase))"

text \<open>\<^verbatim>\<open>str.lower\<close> on a string of \<open>scheme_chars\<close>.\<close>

definition lower_char :: "char \<Rightarrow> char" where
  "lower_char c = (case map_of (zip ascii_uppercase ascii_lowercase) c of None \<Rightarrow> c | Some l \<Rightarrow> l)"

text \<open>\<^verbatim>\<open>_WHATWG_C0_CONTROL_OR_SPACE\<close>: the characters \<^verbatim>\<open>\x00\<close> to \<^verbatim>\<open>\x20\<close>.\<close>

definition c0_control_or_space :: "char \<Rightarrow> bool" where
  "c0_control_or_space c = ((of_char c :: nat) \<le> 32)"

text \<open>\<^verbatim>\<open>_UNSAFE_URL_BYTES_TO_REMOVE\<close>: tab, carriage return, line feed.\<close>

definition unsafe_url_byte :: "char \<Rightarrow> bool" where
  "unsafe_url_byte c = ((of_char c :: nat) \<in> {9, 13, 10})"

text \<open>
  The scheme test of \<^verbatim>\<open>urlsplit\<close>: with \<^verbatim>\<open>i = url.find(':')\<close>, if \<^verbatim>\<open>i > 0\<close>, the first
  character is an ASCII letter and all of \<^verbatim>\<open>url[:i]\<close> is in \<^verbatim>\<open>scheme_chars\<close>, the scheme is
  \<^verbatim>\<open>url[:i].lower()\<close> and the URL continues at \<^verbatim>\<open>url[i+1:]\<close>.
\<close>

definition split_scheme :: "string \<Rightarrow> string \<times> string" where
  "split_scheme url =
     (let pre = before_char CHR '':'' url in
      if CHR '':'' \<in> set url \<and> pre \<noteq> [] \<and> ascii_alpha (hd url) \<and> (\<forall>c \<in> set pre. c \<in> set scheme_chars)
      then (map lower_char pre, after_char CHR '':'' url)
      else ([], url))"

text \<open>\<^verbatim>\<open>_splitnetloc(url, 2)\<close>: the authority runs to the first of \<^verbatim>\<open>/ ? #\<close>.\<close>

definition netloc_delim :: "char \<Rightarrow> bool" where
  "netloc_delim c = (c \<in> set ''/?#'')"

definition splitnetloc :: "string \<Rightarrow> string \<times> string" where
  "splitnetloc url =
     (takeWhile (\<lambda>c. \<not> netloc_delim c) (drop 2 url),
      dropWhile (\<lambda>c. \<not> netloc_delim c) (drop 2 url))"

text \<open>The three checks of the authority part; each failure is a \<^verbatim>\<open>ValueError\<close>.\<close>

definition netloc_accepted :: "pylib \<Rightarrow> string \<Rightarrow> bool" where
  "netloc_accepted lib n =
     (let lb = CHR ''['' \<in> set n; rb = CHR '']'' \<in> set n in
      \<not> ((lb \<and> \<not> rb) \<or> (rb \<and> \<not> lb))
      \<and> (\<not> (lb \<and> rb) \<or> bracketed_host_ok lib (before_char CHR '']'' (after_char CHR ''['' n)))
      \<and> (n = [] \<or> (\<forall>c \<in> set n. isascii c) \<or> nfkc_ok lib n))"

definition urlsplit :: "pylib \<Rightarrow> string \<Rightarrow> pyerror + ParseResult" where
  "urlsplit lib url0 =
     (let url1 = filter (\<lambda>c. \<not> unsafe_url_byte c) (dropWhile c0_control_or_space url0);
          (sch, url2) = split_scheme url1;
          (nl, url3) = (if take 2 url2 = ''//'' then splitnetloc url2 else ([], url2));
          frag = after_char CHR ''#'' url3;
          url4 = before_char CHR ''#'' url3;
          qry = after_char CHR ''?'' url4;
          url5 = before_char CHR ''?'' url4
      in if netloc_accepted lib nl
         then Inr \<lparr>scheme = sch, netloc = nl, path = url5, params = [], query = qry, fragment = frag\<rparr>
         else Inl ValueError)"

text \<open>
  \<^verbatim>\<open>_splitparams\<close>: the parameters start at the first \<^verbatim>\<open>;\<close> of the last path segment
  (the first \<^verbatim>\<open>;\<close> at or after the last \<^verbatim>\<open>/\<close>).
\<close>

definition last_segment :: "string \<Rightarrow> string" where
  "last_segment p = rev (takeWhile (\<lambda>c. c \<noteq> CHR ''/'') (rev p))"

definition splitparams :: "string \<Rightarrow> string \<times> string" where
  "splitparams url =
     (let seg = last_segment url; dir = take (length url - length seg) url in
      if CHR '';'' \<in> set seg
      then (dir @ before_char CHR '';'' seg, after_char CHR '';'' seg)
      else (url, []))"

definition urlparse :: "pylib \<Rightarrow> string \<Rightarrow> pyerror + ParseResult" where
  "urlparse lib url =
     (case urlsplit lib url of
        Inl e \<Rightarrow> Inl e
      | Inr r \<Rightarrow>
          if scheme r \<in> set uses_params \<and> CHR '';'' \<in> set (path r)
          then Inr (r\<lparr>path := fst (splitparams (path r)), params := snd (splitparams (path r))\<rparr>)
          else Inr r)"

subsection \<open>\<^verbatim>\<open>os.path.splitext\<close> and \<^verbatim>\<open>os.path.join\<close> (POSIX)\<close>

text \<open>
  \<^verbatim>\<open>genericpath._splitext\<close> with separator \<^verbatim>\<open>/\<close>: the extension runs from the last dot of
  the last segment, where the leading dots of the segment do not count; it is empty when
  no dot is left after them.
\<close>

definition splitext_ext :: "string \<Rightarrow> string" where
  "splitext_ext p =
     (let name = dropWhile (\<lambda>c. c = CHR ''.'') (last_segment p) in
      if CHR ''.'' \<in> set name
      then CHR ''.'' # rev (takeWhile (\<lambda>c. c \<noteq> CHR ''.'') (rev name))
      else [])"

text \<open>\<^verbatim>\<open>posixpath.join(a, b)\<close>.\<close>

definition path_join :: "string \<Rightarrow> string \<Rightarrow> string" where
  "path_join a b =
     (if take 1 b = ''/'' then b
      else if a = [] \<or> last a = CHR ''/'' then a @ b
      else a @ ''/'' @ b)"

section \<open>Extension inference\<close>

text \<open>
  \<^verbatim>\<open>get_file_extension_from_url(url)\<close> for a \<^verbatim>\<open>str\<close>. \<^verbatim>\<open>urlparse\<close> runs first, so its
  \<^verbatim>\<open>ValueError\<close> comes before the test for \<^verbatim>\<open>?ext=\<close>.
\<close>

definition get_file_extension_from_url :: "pylib \<Rightarrow> string \<Rightarrow> pyerror + string" where
  "get_file_extension_from_url lib url =
     (case urlparse lib url of
        Inl e \<Rightarrow> Inl e
      | Inr parsed \<Rightarrow>
          if contains ''?ext='' url
          then (case py_index (py_split url ''?ext='') 1 of
                  Inl e \<Rightarrow> Inl e
                | Inr t \<Rightarrow> (case py_index (py_split t ''&'') 0 of
                              Inl e \<Rightarrow> Inl e
                            | Inr ext \<Rightarrow> Inr (''.'' @ ext)))
          else (let ext = splitext_ext (path parsed) in
                Inr (if ext \<noteq> [] then ext else ''.png'')))"

section \<open>The world the script runs in\<close>

text \<open>
  What the script cannot decide itself is the environment \<open>env\<close>, fixed for a run:
  \<^item> \<open>manifest\<close>: what \<^verbatim>\<open>json.load\<close> makes of \<^verbatim>\<open>collection.json\<close>, \<open>None\<close> when opening or
    parsing the file raises;
  \<^item> \<open>mkdir_ok\<close>: \<^verbatim>\<open>Path('nft_images').mkdir(exist_ok=True)\<close> does not raise;
  \<^item> \<open>net k url\<close>: the outcome of the \<open>k\<close>-th \<^verbatim>\<open>requests.get\<close> (counted from 0 over the
    life of the world) followed by \<^verbatim>\<open>raise_for_status\<close>;
  \<^item> \<open>can_write k p\<close>: after the \<open>k\<close>-th request, opening \<open>p\<close> for writing and writing the
    body succeed; otherwise they raise (an \<^verbatim>\<open>OSError\<close>) and the file system is left as it was;
  \<^item> \<open>py_str v\<close>: the text an f-string gives for a value that is not a \<^verbatim>\<open>str\<close>;
  \<^item> \<open>lib\<close>: the two checks of \<^verbatim>\<open>urlparse\<close> above.
  The state that changes is the \<open>world\<close>: the paths that exist with their contents (paths
  are compared as strings), the number of requests made, and the trace of requests and
  sleeps in the order they happen. Console output is not part of the state.
\<close>

datatype response = RequestException | Response string

datatype event = Get string | Sleep rat

record env =
  lib :: pylib
  manifest :: "json option"
  mkdir_ok :: bool
  net :: "nat \<Rightarrow> string \<Rightarrow> response"
  can_write :: "nat \<Rightarrow> string \<Rightarrow> bool"
  py_str :: "json \<Rightarrow> string"

record world =
  files :: "string \<rightharpoonup> string"
  requests :: nat
  trace :: "event list"

definition log_event :: "event \<Rightarrow> world \<Rightarrow> world" where
  "log_event e w = w\<lparr>trace := trace w @ [e]\<rparr>"

text \<open>Sequencing of steps that may raise.\<close>

definition chain :: "pyerror + 'a \<Rightarrow> ('a \<Rightarrow> pyerror + 'b) \<Rightarrow> pyerror + 'b" where
  "chain m f = (case m of Inl e \<Rightarrow> Inl e | Inr x \<Rightarrow> f x)"

section \<open>The manifest loader\<close>

text \<open>
  \<^verbatim>\<open>load_collection_data\<close>: the parsed document, or \<^verbatim>\<open>None\<close> (here \<open>JNull\<close>) after
  reporting that the file could not be loaded.
\<close>

definition load_collection_data :: "env \<Rightarrow> json" where
  "load_collection_data en = (case manifest en of None \<Rightarrow> JNull | Some data \<Rightarrow> data)"

section \<open>The fetcher\<close>

text \<open>
  \<^verbatim>\<open>download_image(url, filepath, max_retries)\<close>. \<open>download_attempts\<close> is the \<^verbatim>\<open>for\<close> loop
  from \<open>attempt\<close> on. Only \<^verbatim>\<open>requests.exceptions.RequestException\<close> is caught; a failing write
  raises out of the function.
\<close>

function download_attempts ::
  "env \<Rightarrow> string \<Rightarrow> string \<Rightarrow> int \<Rightarrow> int \<Rightarrow> world \<Rightarrow> (pyerror + bool) \<times> world" where
  "download_attempts en url filepath max_retries attempt w =
     (if attempt < max_retries
      then (let k = requests w; w1 = log_event (Get url) (w\<lparr>requests := k + 1\<rparr>) in
            case net en k url of
              Response content \<Rightarrow>
                if can_write en k filepath
                then (Inr True, w1\<lparr>files := (files w1)(filepath \<mapsto> content)\<rparr>)
                else (Inl OSError, w1)
            | RequestException \<Rightarrow>
                if attempt < max_retries - 1
                then download_attempts en url filepath max_retries (attempt + 1) (log_event (Sleep 2) w1)
                else (Inr False, w1))
      else (Inr False, w))"
  by pat_completeness auto
termination
  by (relation "measure (\<lambda>(en, url, filepath, max_retries, attempt, w). nat (max_retries - attempt))") auto

declare download_attempts.simps [simp del]

definition download_image ::
  "env \<Rightarrow> string \<Rightarrow> string \<Rightarrow> int \<Rightarrow> world \<Rightarrow> (pyerror + bool) \<times> world" where
  "download_image en url filepath max_retries w = download_attempts en url filepath max_retries 0 w"

section \<open>The driver\<close>

record counters =
  successful_downloads :: nat
  failed_downloads :: nat
  skipped_downloads :: nat

definition download_dir :: string where
  "download_dir = ''nft_images''"

text \<open>\<^verbatim>\<open>f"{v}"\<close>: a \<^verbatim>\<open>str\<close> is copied, any other value is formatted by the interpreter.\<close>

definition format_value :: "env \<Rightarrow> json \<Rightarrow> string" where
  "format_value en v = (case v of JStr s \<Rightarrow> s | _ \<Rightarrow> py_str en v)"

text \<open>\<^verbatim>\<open>item.get(k1, {}).get(k2, {}).get(k3, d)\<close>.\<close>

definition get3 :: "json \<Rightarrow> string \<Rightarrow> string \<Rightarrow> string \<Rightarrow> json \<Rightarrow> pyerror + json" where
  "get3 item k1 k2 k3 d =
     chain (py_get item k1 (JObj [])) (\<lambda>a. chain (py_get a k2 (JObj [])) (\<lambda>b. py_get b k3 d))"

text \<open>
  The first half of the loop body, up to the destination path: \<open>Inr None\<close> is the skip,
  \<open>Inr (Some (url, filepath))\<close> the download target. \<^verbatim>\<open>urlparse\<close> of a truthy value that
  is not a \<^verbatim>\<open>str\<close> raises \<^verbatim>\<open>AttributeError\<close> (it has no \<^verbatim>\<open>decode\<close>).
\<close>

definition resolve :: "env \<Rightarrow> json \<Rightarrow> pyerror + (string \<times> string) option" where
  "resolve en item =
     chain (py_get item ''id'' (JStr [])) (\<lambda>mint_address.
     chain (get3 item ''content'' ''links'' ''image'' (JStr [])) (\<lambda>image_url.
     chain (get3 item ''content'' ''metadata'' ''name'' (JStr ''Unknown'')) (\<lambda>nft_name.
       if \<not> truthy mint_address \<or> \<not> truthy image_url then Inr None
       else (case image_url of
               JStr url \<Rightarrow>
                 chain (get_file_extension_from_url (lib en) url) (\<lambda>file_ext.
                   Inr (Some (url, path_join download_dir (format_value en mint_address @ file_ext))))
             | _ \<Rightarrow> Inl AttributeError))))"

text \<open>One pass of the loop body; both \<^verbatim>\<open>continue\<close> statements leave before the sleep.\<close>

definition process_item :: "env \<Rightarrow> json \<Rightarrow> counters \<Rightarrow> world \<Rightarrow> (pyerror + counters) \<times> world" where
  "process_item en item c w =
     (case resolve en item of
        Inl e \<Rightarrow> (Inl e, w)
      | Inr None \<Rightarrow> (Inr (c\<lparr>skipped_downloads := skipped_downloads c + 1\<rparr>), w)
      | Inr (Some (url, filepath)) \<Rightarrow>
          if filepath \<in> dom (files w)
          then (Inr (c\<lparr>successful_downloads := successful_downloads c + 1\<rparr>), w)
          else (case download_image en url filepath 3 w of
                  (Inl e, w1) \<Rightarrow> (Inl e, w1)
                | (Inr ok, w1) \<Rightarrow>
                    (Inr (if ok then c\<lparr>successful_downloads := successful_downloads c + 1\<rparr>
                          else c\<lparr>failed_downloads := failed_downloads c + 1\<rparr>),
                     log_event (Sleep (1 / 2)) w1)))"

text \<open>The \<^verbatim>\<open>for\<close> loop of \<^verbatim>\<open>main\<close>: an exception in one pass ends the loop.\<close>

fun run_items :: "env \<Rightarrow> json list \<Rightarrow> counters \<Rightarrow> world \<Rightarrow> (pyerror + counters) \<times> world" where
  "run_items en [] c w = (Inr c, w)"
| "run_items en (item # rest) c w =
     (case process_item en item c w of
        (Inl e, w1) \<Rightarrow> (Inl e, w1)
      | (Inr c1, w1) \<Rightarrow> run_items en rest c1 w1)"

text \<open>\<^verbatim>\<open>collection_data.get('result', {}).get('items', [])\<close> and the sequence it is walked as.\<close>

definition manifest_items :: "json \<Rightarrow> pyerror + json list" where
  "manifest_items collection_data =
     chain (py_get collection_data ''result'' (JObj [])) (\<lambda>r.
     chain (py_get r ''items'' (JArr [])) py_iter)"

definition no_downloads :: counters where
  "no_downloads = \<lparr>successful_downloads = 0, failed_downloads = 0, skipped_downloads = 0\<rparr>"

text \<open>
  \<^verbatim>\<open>main()\<close>. The result \<open>Inr None\<close> is the early \<^verbatim>\<open>return\<close> with no summary;
  \<open>Inr (Some (c, total_count))\<close> is the summary printed at the end; \<open>Inl e\<close> is an exception
  that ends the run.
\<close>

definition main :: "env \<Rightarrow> world \<Rightarrow> (pyerror + (counters \<times> nat) option) \<times> world" where
  "main en w =
     (if \<not> mkdir_ok en then (Inl OSError, w)
      else (let collection_data = load_collection_data en in
            if \<not> truthy collection_data then (Inr None, w)
            else (case manifest_items collection_data of
                    Inl e \<Rightarrow> (Inl e, w)
                  | Inr items \<Rightarrow>
                      (case run_items en items no_downloads w of
                         (Inl e, w1) \<Rightarrow> (Inl e, w1)
                       | (Inr c, w1) \<Rightarrow> (Inr (Some (c, length items)), w1)))))"

section \<open>Notions used to state the properties\<close>

text \<open>A parsed document is a \<^verbatim>\<open>dict\<close>.\<close>

fun is_dict :: "json \<Rightarrow> bool" where
  "is_dict (JObj kvs) = True"
| "is_dict _ = False"

text \<open>
  The part of \<open>s\<close> before its first occurrence of \<open>sep\<close> (all of \<open>s\<close> when there is none),
  and the part after it (nothing when there is none).
\<close>

fun before_first :: "string \<Rightarrow> string \<Rightarrow> string" where
  "before_first sep [] = []"
| "before_first sep (c # cs) = (if prefix sep (c # cs) then [] else c # before_first sep cs)"

fun after_first :: "string \<Rightarrow> string \<Rightarrow> string" where
  "after_first sep [] = []"
| "after_first sep (c # cs) =
     (if prefix sep (c # cs) then drop (length sep) (c # cs) else after_first sep cs)"

text \<open>
  The extension value as the specification words it: the substring between \<^verbatim>\<open>?ext=\<close> and
  the next \<^verbatim>\<open>&\<close> or the end of the string.
\<close>

definition spec_ext_value :: "string \<Rightarrow> string" where
  "spec_ext_value url = before_char CHR ''&'' (after_first ''?ext='' url)"

text \<open>
  The path extension as the specification words it: the substring from the last dot of the
  last path segment.
\<close>

definition spec_path_ext :: "string \<Rightarrow> string" where
  "spec_path_ext p =
     (let seg = last_segment p in
      if CHR ''.'' \<in> set seg
      then CHR ''.'' # rev (takeWhile (\<lambda>c. c \<noteq> CHR ''.'') (rev seg))
      else [])"

text \<open>
  The trace of \<open>n\<close> requests for \<open>url\<close> with a sleep of 2 between consecutive ones.
\<close>

fun retry_trace :: "string \<Rightarrow> nat \<Rightarrow> event list" where
  "retry_trace url 0 = []"
| "retry_trace url (Suc 0) = [Get url]"
| "retry_trace url (Suc (Suc n)) = Get url # Sleep 2 # retry_trace url (Suc n)"

section \<open>Sample inputs\<close>

definition lib_permissive :: pylib where
  "lib_permissive = \<lparr>bracketed_host_ok = (\<lambda>h. True), nfkc_ok = (\<lambda>n. True)\<rparr>"

definition fresh_world :: world where
  "fresh_world = \<lparr>files = Map.empty, requests = 0, trace = []\<rparr>"

definition entry :: "string \<Rightarrow> string \<Rightarrow> json" where
  "entry mint url =
     JObj [(''id'', JStr mint),
           (''content'', JObj [(''links'', JObj [(''image'', JStr url)]),
                               (''metadata'', JObj [(''name'', JStr mint)])])]"

definition entry_without_id :: "string \<Rightarrow> json" where
  "entry_without_id url = JObj [(''content'', JObj [(''links'', JObj [(''image'', JStr url)])])]"

definition collection :: "json list \<Rightarrow> json" where
  "collection items = JObj [(''result'', JObj [(''items'', JArr items)])]"

definition sample_env :: "json option \<Rightarrow> (nat \<Rightarrow> string \<Rightarrow> response) \<Rightarrow> bool \<Rightarrow> env" where
  "sample_env doc nt writable =
     \<lparr>lib = lib_permissive, manifest = doc, mkdir_ok = True, net = nt,
      can_write = (\<lambda>k p. writable), py_str = (\<lambda>v. [])\<rparr>"

definition url_png :: string where
  "url_png = ''https://x.com/a.png''"

definition url_webp :: string where
  "url_webp = ''https://x.com/b?ext=webp''"

definition always_fails :: "nat \<Rightarrow> string \<Rightarrow> response" where
  "always_fails k u = RequestException"

definition always_serves :: "nat \<Rightarrow> string \<Rightarrow> response" where
  "always_serves k u = Response ''img''"

text \<open>The server of the end-to-end scenario: the second and third request fail.\<close>

definition fails_twice :: "nat \<Rightarrow> string \<Rightarrow> response" where
  "fails_twice k u = (if k = 1 \<or> k = 2 then RequestException else Response ''img'')"

text \<open>A server that is down for the first three requests and up afterwards.\<close>

definition down_then_up :: "nat \<Rightarrow> string \<Rightarrow> response" where
  "down_then_up k u = (if k < 3 then RequestException else Response ''img'')"

text \<open>A world in which one path exists already.\<close>

definition world_with :: "string \<Rightarrow> string \<Rightarrow> world" where
  "world_with p content = \<lparr>files = [p \<mapsto> content], requests = 0, trace = []\<rparr>"

section \<open>Evaluating the sample inputs\<close>

lemmas url_eval =
  get_file_extension_from_url_def urlparse_def urlsplit_def split_scheme_def before_char_def
  after_char_def ascii_alpha_def ascii_lowercase_def ascii_uppercase_def scheme_chars_def
  lower_char_def splitnetloc_def netloc_delim_def netloc_accepted_def isascii_def
  c0_control_or_space_def unsafe_url_byte_def uses_params_def py_split_def py_index_def
  splitext_ext_def last_segment_def splitparams_def

lemmas item_eval =
  resolve_def get3_def chain_def format_value_def path_join_def download_dir_def
  entry_def entry_without_id_def sample_env_def lib_permissive_def url_png_def url_webp_def

lemma resolve_png:
  "resolve (sample_env doc nt cw) (entry ''Mint1'' url_png) =
     Inr (Some (url_png, ''nft_images/Mint1.png''))"
  by (simp add: item_eval url_eval)

lemma resolve_webp:
  "resolve (sample_env doc nt cw) (entry ''Mint3'' url_webp) =
     Inr (Some (url_webp, ''nft_images/Mint3.webp''))"
  by (simp add: item_eval url_eval)

lemma resolve_without_id:
  "resolve (sample_env doc nt cw) (entry_without_id url_png) = Inr None"
  by (simp add: item_eval)

lemma sample_env_sel:
  "manifest (sample_env doc nt cw) = doc" "mkdir_ok (sample_env doc nt cw)"
  "net (sample_env doc nt cw) = nt" "can_write (sample_env doc nt cw) k p = cw"
  by (simp_all add: sample_env_def)

lemmas run_eval =
  Let_def sample_env_sel main_def load_collection_data_def manifest_items_def chain_def
  collection_def process_item_def download_image_def download_attempts.simps log_event_def
  resolve_png resolve_webp resolve_without_id no_downloads_def fresh_world_def world_with_def
  always_fails_def always_serves_def fails_twice_def down_then_up_def

section \<open>Properties of the manifest handling\<close>

text \<open>
  Claim C10. When the manifest parses to a truthy value that is not a dict (a non-empty
  array, a non-empty string, a non-zero number, \<^verbatim>\<open>true\<close>), extracting \<^verbatim>\<open>result.items\<close>
  raises \<^verbatim>\<open>AttributeError\<close>: the run ends with that unhandled exception, with no summary
  and nothing done to the world. (The output directory is taken to have been created.)
\<close>

theorem non_dict_manifest_raises:
  assumes "mkdir_ok en" and "manifest en = Some data" and "truthy data" and "\<not> is_dict data"
  shows "main en w = (Inl AttributeError, w)"
  using assms
  by (cases data) (simp_all add: main_def load_collection_data_def manifest_items_def chain_def)

theorem non_dict_manifest_raises_witness:
  "main (sample_env (Some (JArr [JInt 1])) always_serves True) fresh_world
     = (Inl AttributeError, fresh_world)"
proof -
  let ?en = "sample_env (Some (JArr [JInt 1])) always_serves True"
  have "mkdir_ok ?en" and "manifest ?en = Some (JArr [JInt 1])"
    and "truthy (JArr [JInt 1])" and "\<not> is_dict (JArr [JInt 1])"
    by (simp_all add: sample_env_sel)
  then show ?thesis by (rule non_dict_manifest_raises)
qed

text \<open>
  Claim C5, as amended. For every manifest that parses to a non-empty dict in which the key
  \<^verbatim>\<open>result\<close> is absent, or holds a dict in which the key \<^verbatim>\<open>items\<close> is absent, the entry
  sequence is empty and the run completes with the summary of zero entries, the world
  untouched. (An empty dict is falsy and ends the run at the guard after loading, before any
  summary; a \<^verbatim>\<open>result\<close> that is not a dict raises.)
\<close>

theorem absent_items_empty_run:
  assumes "mkdir_ok en" and "manifest en = Some (JObj kvs)" and "kvs \<noteq> []"
    and "map_of kvs ''result'' = None
         \<or> (\<exists>r. map_of kvs ''result'' = Some (JObj r) \<and> map_of r ''items'' = None)"
  shows "main en w = (Inr (Some (no_downloads, 0)), w)"
  using assms
  by (auto simp: main_def load_collection_data_def manifest_items_def chain_def)

theorem absent_items_empty_run_witness:
  "main (sample_env (Some (JObj [(''name'', JStr ''x'')])) always_serves True) fresh_world
     = (Inr (Some (no_downloads, 0)), fresh_world)
   \<and> main (sample_env (Some (JObj [(''result'', JObj [])])) always_serves True) fresh_world
     = (Inr (Some (no_downloads, 0)), fresh_world)"
proof -
  let ?a = "sample_env (Some (JObj [(''name'', JStr ''x'')])) always_serves True"
  let ?b = "sample_env (Some (JObj [(''result'', JObj [])])) always_serves True"
  have a: "mkdir_ok ?a" "manifest ?a = Some (JObj [(''name'', JStr ''x'')])"
    "[(''name'', JStr ''x'')] \<noteq> []"
    "map_of [(''name'', JStr ''x'')] ''result'' = None
     \<or> (\<exists>r. map_of [(''name'', JStr ''x'')] ''result'' = Some (JObj r) \<and> map_of r ''items'' = None)"
    by (simp_all add: sample_env_sel)
  have b: "mkdir_ok ?b" "manifest ?b = Some (JObj [(''result'', JObj [])])"
    "[(''result'', JObj [])] \<noteq> []"
    "map_of [(''result'', JObj [])] ''result'' = None
     \<or> (\<exists>r. map_of [(''result'', JObj [])] ''result'' = Some (JObj r) \<and> map_of r ''items'' = None)"
    by (simp_all add: sample_env_sel)
  from absent_items_empty_run[OF a] absent_items_empty_run[OF b] show ?thesis by blast
qed

text \<open>
  The claim as stated fails on the manifest \<^verbatim>\<open>{}\<close>: it parses, \<^verbatim>\<open>result.items\<close> is absent,
  and the run returns at \<^verbatim>\<open>if not collection_data\<close> without a summary.
\<close>

theorem empty_dict_manifest_no_summary:
  "main (sample_env (Some (JObj [])) always_serves True) fresh_world = (Inr None, fresh_world)"
  by (simp add: run_eval)

section \<open>Properties of the counters\<close>

lemma process_item_counts:
  assumes "process_item en item c w = (Inr c1, w1)"
  shows "c1 = c\<lparr>successful_downloads := successful_downloads c + 1\<rparr>
       \<or> c1 = c\<lparr>failed_downloads := failed_downloads c + 1\<rparr>
       \<or> c1 = c\<lparr>skipped_downloads := skipped_downloads c + 1\<rparr>"
  using assms
  by (auto simp: process_item_def split: sum.splits option.splits prod.splits if_splits)

lemma process_item_sum:
  assumes "process_item en item c w = (Inr c1, w1)"
  shows "successful_downloads c1 + failed_downloads c1 + skipped_downloads c1
       = successful_downloads c + failed_downloads c + skipped_downloads c + 1"
  using process_item_counts[OF assms] by auto

lemma run_items_sum:
  "run_items en its c w = (Inr c1, w1) \<Longrightarrow>
   successful_downloads c1 + failed_downloads c1 + skipped_downloads c1
       = successful_downloads c + failed_downloads c + skipped_downloads c + length its"
proof (induction its arbitrary: c w)
  case Nil
  then show ?case by simp
next
  case (Cons item rest)
  then show ?case
    by (auto split: sum.splits prod.splits dest!: process_item_sum)
qed

text \<open>
  Claim C1. Whenever the driver reaches its summary, the counters it prints satisfy
  successful + failed + skipped = total, and total is the length of the sequence
  \<^verbatim>\<open>result.items\<close> of the manifest; every pass of the loop that completes increments exactly
  one of the three counters by one and leaves the other two as they were.
\<close>

theorem counts_reconcile:
  "(main en w = (Inr (Some (c, total_count)), w1) \<longrightarrow>
      successful_downloads c + failed_downloads c + skipped_downloads c = total_count
      \<and> (\<exists>items. manifest_items (load_collection_data en) = Inr items \<and> total_count = length items))
   \<and> (process_item en item c0 w0 = (Inr c1, w2) \<longrightarrow>
        c1 = c0\<lparr>successful_downloads := successful_downloads c0 + 1\<rparr>
      \<or> c1 = c0\<lparr>failed_downloads := failed_downloads c0 + 1\<rparr>
      \<or> c1 = c0\<lparr>skipped_downloads := skipped_downloads c0 + 1\<rparr>)"
proof (intro conjI impI)
  assume m: "main en w = (Inr (Some (c, total_count)), w1)"
  then obtain items where it: "manifest_items (load_collection_data en) = Inr items"
    and run: "run_items en items no_downloads w = (Inr c, w1)" and tc: "total_count = length items"
    by (auto simp: main_def Let_def split: if_splits sum.splits prod.splits)
  from run_items_sum[OF run] tc
  show "successful_downloads c + failed_downloads c + skipped_downloads c = total_count"
    by (simp add: no_downloads_def)
  from it tc
  show "\<exists>items. manifest_items (load_collection_data en) = Inr items \<and> total_count = length items"
    by blast
next
  assume "process_item en item c0 w0 = (Inr c1, w2)"
  then show "c1 = c0\<lparr>successful_downloads := successful_downloads c0 + 1\<rparr>
      \<or> c1 = c0\<lparr>failed_downloads := failed_downloads c0 + 1\<rparr>
      \<or> c1 = c0\<lparr>skipped_downloads := skipped_downloads c0 + 1\<rparr>"
    by (rule process_item_counts)
qed

text \<open>
  The end-to-end scenario of the specification: a first entry that downloads, a second
  without identifier, a third whose server fails twice and then answers.
\<close>

lemma end_to_end_run:
  "main (sample_env (Some (collection [entry ''Mint1'' url_png, entry_without_id url_png,
                                       entry ''Mint3'' url_webp])) fails_twice True) fresh_world
   = (Inr (Some (\<lparr>successful_downloads = 2, failed_downloads = 0, skipped_downloads = 1\<rparr>, 3)),
      \<lparr>files = [''nft_images/Mint1.png'' \<mapsto> ''img'', ''nft_images/Mint3.webp'' \<mapsto> ''img''],
       requests = 4,
       trace = [Get url_png, Sleep (1 / 2), Get url_webp, Sleep 2, Get url_webp, Sleep 2,
                Get url_webp, Sleep (1 / 2)]\<rparr>)"
  by (simp add: run_eval)

theorem counts_reconcile_witness:
  "fst (main (sample_env (Some (collection [entry ''Mint1'' url_png, entry_without_id url_png,
                                       entry ''Mint3'' url_webp])) fails_twice True) fresh_world)
     = Inr (Some (\<lparr>successful_downloads = 2, failed_downloads = 0, skipped_downloads = 1\<rparr>, 3))
   \<and> successful_downloads \<lparr>successful_downloads = 2, failed_downloads = 0, skipped_downloads = 1\<rparr>
     + failed_downloads \<lparr>successful_downloads = 2, failed_downloads = 0, skipped_downloads = 1\<rparr>
     + skipped_downloads \<lparr>successful_downloads = 2, failed_downloads = 0, skipped_downloads = 1\<rparr> = 3
   \<and> process_item (sample_env (Some (collection [entry ''Mint1'' url_png, entry_without_id url_png,
                                       entry ''Mint3'' url_webp])) fails_twice True)
       (entry_without_id url_png) no_downloads fresh_world
     = (Inr (no_downloads\<lparr>skipped_downloads := skipped_downloads no_downloads + 1\<rparr>), fresh_world)"
proof -
  let ?en = "sample_env (Some (collection [entry ''Mint1'' url_png, entry_without_id url_png,
                                       entry ''Mint3'' url_webp])) fails_twice True"
  let ?c = "\<lparr>successful_downloads = 2, failed_downloads = 0, skipped_downloads = 1\<rparr>"
  let ?w = "\<lparr>files = [''nft_images/Mint1.png'' \<mapsto> ''img'', ''nft_images/Mint3.webp'' \<mapsto> ''img''],
       requests = 4,
       trace = [Get url_png, Sleep (1 / 2), Get url_webp, Sleep 2, Get url_webp, Sleep 2,
                Get url_webp, Sleep (1 / 2)]\<rparr>"
  have run: "main ?en fresh_world = (Inr (Some (?c, 3)), ?w)" by (rule end_to_end_run)
  have one: "process_item ?en (entry_without_id url_png) no_downloads fresh_world
     = (Inr (no_downloads\<lparr>skipped_downloads := skipped_downloads no_downloads + 1\<rparr>), fresh_world)"
    by (simp add: process_item_def resolve_without_id)
  from counts_reconcile[of ?en fresh_world ?c 3 ?w
      "entry_without_id url_png" no_downloads fresh_world
      "no_downloads\<lparr>skipped_downloads := skipped_downloads no_downloads + 1\<rparr>" fresh_world] run
  have "successful_downloads ?c + failed_downloads ?c + skipped_downloads ?c = 3" by blast
  with run one show ?thesis by simp
qed

section \<open>Properties of the fetcher\<close>

lemma retry_trace_step: "0 < n \<Longrightarrow> retry_trace url (Suc n) = Get url # Sleep 2 # retry_trace url n"
  by (cases n) simp_all

lemma retry_trace_gets: "length (filter (\<lambda>e. e = Get url) (retry_trace url n)) = n"
  by (induction url n rule: retry_trace.induct) simp_all

lemma download_attempts_all_fail:
  assumes "\<forall>k. requests w \<le> k \<and> k < requests w + nat (max_retries - attempt) \<longrightarrow> net en k url = RequestException"
  shows "download_attempts en url filepath max_retries attempt w =
           (Inr False, w\<lparr>requests := requests w + nat (max_retries - attempt),
                         trace := trace w @ retry_trace url (nat (max_retries - attempt))\<rparr>)"
  using assms
proof (induction en url filepath max_retries attempt w rule: download_attempts.induct)
  case (1 en url filepath max_retries attempt w)
  show ?case
  proof (cases "attempt < max_retries")
    case False
    then show ?thesis by (simp add: download_attempts.simps)
  next
    case True
    then have here: "net en (requests w) url = RequestException"
      using "1.prems" by simp
    show ?thesis
    proof (cases "attempt < max_retries - 1")
      case False
      with True have "nat (max_retries - attempt) = Suc 0" by simp
      with True False here show ?thesis
        by (subst download_attempts.simps) (simp add: log_event_def)
    next
      case more: True
      let ?w1 = "log_event (Sleep 2) (log_event (Get url) (w\<lparr>requests := requests w + 1\<rparr>))"
      have n: "nat (max_retries - attempt) = Suc (nat (max_retries - (attempt + 1)))"
        and pos: "0 < nat (max_retries - (attempt + 1))"
        using more by simp_all
      have "\<forall>k. requests ?w1 \<le> k \<and> k < requests ?w1 + nat (max_retries - (attempt + 1)) \<longrightarrow> net en k url = RequestException"
        using "1.prems" n by (simp add: log_event_def)
      from "1.IH"[OF True refl refl here more this]
      have "download_attempts en url filepath max_retries (attempt + 1) ?w1 =
              (Inr False, ?w1\<lparr>requests := requests ?w1 + nat (max_retries - (attempt + 1)),
                   trace := trace ?w1 @ retry_trace url (nat (max_retries - (attempt + 1)))\<rparr>)" .
      with True more here show ?thesis
        by (subst download_attempts.simps) (simp add: log_event_def n retry_trace_step[OF pos])
    qed
  qed
qed

text \<open>
  Claim C3. When every request for the URL fails, the fetcher makes exactly \<open>max_retries\<close>
  requests (three by default), sleeps 2 between consecutive requests and not after the
  last, returns \<^verbatim>\<open>False\<close>, and leaves the file system as it was: the world changes in its
  request count and its trace only. (\<open>nat max_retries\<close> is \<open>max_retries\<close> itself for the
  counts the function is called with; a negative bound gives no request at all.)
\<close>

theorem always_failing_url_retry_bound:
  assumes "\<forall>k. requests w \<le> k \<and> k < requests w + nat max_retries \<longrightarrow> net en k url = RequestException"
  shows "download_image en url filepath max_retries w =
           (Inr False, w\<lparr>requests := requests w + nat max_retries,
                         trace := trace w @ retry_trace url (nat max_retries)\<rparr>)
         \<and> length (filter (\<lambda>e. e = Get url) (retry_trace url (nat max_retries))) = nat max_retries"
  using download_attempts_all_fail[of w max_retries 0 en url filepath] assms
  by (simp add: download_image_def retry_trace_gets)

theorem always_failing_url_retry_bound_witness:
  "download_image (sample_env None always_fails True) url_png ''nft_images/Mint1.png'' 3 fresh_world
     = (Inr False, \<lparr>files = Map.empty, requests = 3,
                    trace = [Get url_png, Sleep 2, Get url_png, Sleep 2, Get url_png]\<rparr>)"
proof -
  let ?en = "sample_env None always_fails True"
  have "\<forall>k. requests fresh_world \<le> k \<and> k < requests fresh_world + nat 3 \<longrightarrow>
          net ?en k url_png = RequestException"
    by (simp add: sample_env_sel always_fails_def)
  from always_failing_url_retry_bound[OF this, of "''nft_images/Mint1.png''"]
  show ?thesis by (simp add: fresh_world_def numeral_3_eq_3)
qed

lemma download_attempts_done:
  "\<not> attempt < max_retries \<Longrightarrow> download_attempts en url filepath max_retries attempt w = (Inr False, w)"
  by (subst download_attempts.simps) simp

lemma download_attempts_response:
  "attempt < max_retries \<Longrightarrow> net en (requests w) url = Response content \<Longrightarrow>
   download_attempts en url filepath max_retries attempt w =
     (if can_write en (requests w) filepath
      then (Inr True, w\<lparr>files := (files w)(filepath \<mapsto> content), requests := requests w + 1, trace := trace w @ [Get url]\<rparr>)
      else (Inl OSError, w\<lparr>requests := requests w + 1, trace := trace w @ [Get url]\<rparr>))"
  by (subst download_attempts.simps) (simp add: log_event_def)

lemma download_attempts_last:
  "attempt < max_retries \<Longrightarrow> net en (requests w) url = RequestException \<Longrightarrow> \<not> attempt < max_retries - 1 \<Longrightarrow>
   download_attempts en url filepath max_retries attempt w =
     (Inr False, w\<lparr>requests := requests w + 1, trace := trace w @ [Get url]\<rparr>)"
  by (subst download_attempts.simps) (simp add: log_event_def)

lemma download_attempts_retry:
  "attempt < max_retries \<Longrightarrow> net en (requests w) url = RequestException \<Longrightarrow> attempt < max_retries - 1 \<Longrightarrow>
   download_attempts en url filepath max_retries attempt w =
     download_attempts en url filepath max_retries (attempt + 1)
       (log_event (Sleep 2) (log_event (Get url) (w\<lparr>requests := requests w + 1\<rparr>)))"
  by (subst download_attempts.simps) simp

lemma download_attempts_first_get:
  "attempt < max_retries \<Longrightarrow>
   \<exists>rest. trace (snd (download_attempts en url filepath max_retries attempt w)) = trace w @ Get url # rest"
proof (induction en url filepath max_retries attempt w rule: download_attempts.induct)
  case (1 en url filepath max_retries attempt w)
  note lt = \<open>attempt < max_retries\<close>
  show ?case
  proof (cases "net en (requests w) url")
    case (Response content)
    then show ?thesis using lt by (simp add: download_attempts_response)
  next
    case RequestException
    show ?thesis
    proof (cases "attempt < max_retries - 1")
      case False
      then show ?thesis using lt RequestException by (simp add: download_attempts_last)
    next
      case True
      then have "attempt + 1 < max_retries" by simp
      from "1.IH"[OF lt refl refl RequestException True this]
      obtain rest where "trace (snd (download_attempts en url filepath max_retries (attempt + 1)
          (log_event (Sleep 2) (log_event (Get url) (w\<lparr>requests := requests w + 1\<rparr>))))) =
          trace (log_event (Sleep 2) (log_event (Get url) (w\<lparr>requests := requests w + 1\<rparr>))) @ Get url # rest"
        by blast
      then show ?thesis using lt RequestException True
        by (simp add: download_attempts_retry log_event_def)
    qed
  qed
qed

lemma download_attempts_files_mono:
  "download_attempts en url filepath max_retries attempt w = (r, w1) \<Longrightarrow> dom (files w) \<subseteq> dom (files w1)"
proof (induction en url filepath max_retries attempt w rule: download_attempts.induct)
  case (1 en url filepath max_retries attempt w)
  show ?case
  proof (cases "attempt < max_retries")
    case False
    with "1.prems" show ?thesis by (simp add: download_attempts_done)
  next
    case lt: True
    show ?thesis
    proof (cases "net en (requests w) url")
      case (Response content)
      with "1.prems" lt show ?thesis
        by (auto simp: download_attempts_response split: if_splits)
    next
      case RequestException
      show ?thesis
      proof (cases "attempt < max_retries - 1")
        case False
        with "1.prems" lt RequestException show ?thesis by (auto simp: download_attempts_last)
      next
        case True
        with "1.prems" lt RequestException
        have "download_attempts en url filepath max_retries (attempt + 1)
          (log_event (Sleep 2) (log_event (Get url) (w\<lparr>requests := requests w + 1\<rparr>))) = (r, w1)"
          by (simp add: download_attempts_retry)
        from "1.IH"[OF lt refl refl RequestException True this]
        show ?thesis by (simp add: log_event_def)
      qed
    qed
  qed
qed

lemma download_attempts_success_file:
  "download_attempts en url filepath max_retries attempt w = (Inr True, w1) \<Longrightarrow> filepath \<in> dom (files w1)"
proof (induction en url filepath max_retries attempt w rule: download_attempts.induct)
  case (1 en url filepath max_retries attempt w)
  show ?case
  proof (cases "attempt < max_retries")
    case False
    with "1.prems" show ?thesis by (simp add: download_attempts_done)
  next
    case lt: True
    show ?thesis
    proof (cases "net en (requests w) url")
      case (Response content)
      with "1.prems" lt show ?thesis
        by (auto simp: download_attempts_response split: if_splits)
    next
      case RequestException
      show ?thesis
      proof (cases "attempt < max_retries - 1")
        case False
        with "1.prems" lt RequestException show ?thesis by (simp add: download_attempts_last)
      next
        case True
        with "1.prems" lt RequestException
        have "download_attempts en url filepath max_retries (attempt + 1)
          (log_event (Sleep 2) (log_event (Get url) (w\<lparr>requests := requests w + 1\<rparr>))) = (Inr True, w1)"
          by (simp add: download_attempts_retry)
        from "1.IH"[OF lt refl refl RequestException True this]
        show ?thesis .
      qed
    qed
  qed
qed

lemma process_item_files_mono:
  "process_item en item c w = (r, w1) \<Longrightarrow> dom (files w) \<subseteq> dom (files w1)"
  by (auto simp: process_item_def download_image_def log_event_def
      split: sum.splits option.splits prod.splits if_splits dest!: download_attempts_files_mono)

lemma run_items_files_mono:
  "run_items en its c w = (r, w1) \<Longrightarrow> dom (files w) \<subseteq> dom (files w1)"
proof (induction its arbitrary: c w)
  case Nil
  then show ?case by simp
next
  case (Cons item rest)
  show ?case
  proof (cases "process_item en item c w")
    case (Pair r0 w0)
    note p = process_item_files_mono[OF Pair]
    show ?thesis
    proof (cases r0)
      case (Inl e)
      with Cons.prems Pair p show ?thesis by simp
    next
      case (Inr c0)
      with Cons.prems Pair have "run_items en rest c0 w0 = (r, w1)" by simp
      from Cons.IH[OF this] p show ?thesis by blast
    qed
  qed
qed

lemma process_item_failed_mono:
  "process_item en item c w = (Inr c1, w1) \<Longrightarrow> failed_downloads c \<le> failed_downloads c1"
  by (auto simp: process_item_def split: sum.splits option.splits prod.splits if_splits)

lemma run_items_failed_mono:
  "run_items en its c w = (Inr c1, w1) \<Longrightarrow> failed_downloads c \<le> failed_downloads c1"
proof (induction its arbitrary: c w)
  case Nil
  then show ?case by simp
next
  case (Cons item rest)
  then show ?case
    by (auto split: sum.splits prod.splits dest!: process_item_failed_mono) fastforce
qed

lemma process_item_again:
  assumes "process_item en item c w = (Inr c1, w1)"
    and "failed_downloads c1 = failed_downloads c"
    and "dom (files w1) \<subseteq> dom (files w2)"
  shows "process_item en item c w2 = (Inr c1, w2)"
proof (cases "resolve en item")
  case (Inl e)
  with assms show ?thesis by (simp add: process_item_def)
next
  case (Inr t)
  show ?thesis
  proof (cases t)
    case None
    with Inr assms show ?thesis by (simp add: process_item_def)
  next
    case (Some target)
    obtain url filepath where t: "target = (url, filepath)" by (cases target)
    show ?thesis
    proof (cases "filepath \<in> dom (files w)")
      case True
      with Inr Some t assms show ?thesis by (auto simp: process_item_def)
    next
      case False
      obtain r0 w0 where d: "download_image en url filepath 3 w = (r0, w0)"
        by (cases "download_image en url filepath 3 w")
      with Inr Some t False assms(1) obtain ok where r0: "r0 = Inr ok"
        by (cases r0) (auto simp: process_item_def)
      with Inr Some t False assms(1) d have w1: "w1 = log_event (Sleep (1 / 2)) w0"
        and c1: "c1 = (if ok then c\<lparr>successful_downloads := successful_downloads c + 1\<rparr>
                          else c\<lparr>failed_downloads := failed_downloads c + 1\<rparr>)"
        by (auto simp: process_item_def)
      from c1 assms(2) have ok: ok by (cases ok) simp_all
      with d r0 have "filepath \<in> dom (files w0)"
        by (auto simp: download_image_def dest: download_attempts_success_file)
      with w1 assms(3) have "filepath \<in> dom (files w2)" by (auto simp: log_event_def)
      with Inr Some t c1 ok show ?thesis by (simp add: process_item_def)
    qed
  qed
qed

lemma run_items_again:
  assumes "run_items en its c w = (Inr c1, w1)"
    and "failed_downloads c1 = failed_downloads c"
    and "dom (files w1) \<subseteq> dom (files w2)"
  shows "run_items en its c w2 = (Inr c1, w2)"
  using assms
proof (induction its arbitrary: c w)
  case Nil
  then show ?case by simp
next
  case (Cons item rest)
  obtain r0 w0 where p: "process_item en item c w = (r0, w0)"
    by (cases "process_item en item c w")
  with Cons.prems(1) obtain c0 where r0: "r0 = Inr c0" by (cases r0) auto
  with p Cons.prems(1) have rest: "run_items en rest c0 w0 = (Inr c1, w1)" by simp
  from p r0 have "failed_downloads c \<le> failed_downloads c0" by (auto dest: process_item_failed_mono)
  moreover from rest have "failed_downloads c0 \<le> failed_downloads c1" by (rule run_items_failed_mono)
  ultimately have f0: "failed_downloads c0 = failed_downloads c" and f1: "failed_downloads c1 = failed_downloads c0"
    using Cons.prems(2) by simp_all
  from run_items_files_mono[OF rest] Cons.prems(3) have sub: "dom (files w0) \<subseteq> dom (files w2)" by blast
  from p r0 have "process_item en item c w2 = (Inr c0, w2)"
    using process_item_again[OF _ f0 sub] by simp
  moreover have "run_items en rest c0 w2 = (Inr c1, w2)"
    by (rule Cons.IH[OF rest f1 Cons.prems(3)])
  ultimately show ?case by simp
qed

section \<open>Properties of the driver\<close>

text \<open>
  Claim C4, as amended. The check for an existing file is made by the driver, before the
  fetcher is called: an entry whose destination path exists increments the successful
  counter and the loop goes on with the world as it was (no request, no sleep). The
  fetcher has no such check: called with a positive retry bound it starts with a request
  for the URL, whatever exists at the destination.
\<close>

theorem existing_file_counts_as_success:
  "(resolve en item = Inr (Some (url, filepath)) \<and> filepath \<in> dom (files w) \<longrightarrow>
      run_items en (item # rest) c w =
        run_items en rest (c\<lparr>successful_downloads := successful_downloads c + 1\<rparr>) w)
   \<and> (0 < max_retries \<longrightarrow>
        (\<exists>more. trace (snd (download_image en url filepath max_retries w)) = trace w @ Get url # more))"
  using download_attempts_first_get[of 0 max_retries en url filepath w]
  by (auto simp: process_item_def download_image_def)

theorem existing_file_counts_as_success_witness:
  "run_items (sample_env None always_serves True) [entry ''Mint1'' url_png] no_downloads
       (world_with ''nft_images/Mint1.png'' ''old'')
     = (Inr (no_downloads\<lparr>successful_downloads := successful_downloads no_downloads + 1\<rparr>),
        world_with ''nft_images/Mint1.png'' ''old'')
   \<and> (\<exists>more. trace (snd (download_image (sample_env None always_serves True) url_png
                 ''nft_images/Mint1.png'' 3 (world_with ''nft_images/Mint1.png'' ''old'')))
        = trace (world_with ''nft_images/Mint1.png'' ''old'') @ Get url_png # more)"
proof -
  let ?en = "sample_env None always_serves True"
  let ?w = "world_with ''nft_images/Mint1.png'' ''old''"
  have r: "resolve ?en (entry ''Mint1'' url_png) = Inr (Some (url_png, ''nft_images/Mint1.png''))"
    by (rule resolve_png)
  have d: "''nft_images/Mint1.png'' \<in> dom (files ?w)" by (simp add: world_with_def)
  have m: "(0::int) < 3" by simp
  from existing_file_counts_as_success[of ?en "entry ''Mint1'' url_png" url_png
      "''nft_images/Mint1.png''" ?w "[]" no_downloads 3] r d m
  show ?thesis by simp
qed

text \<open>
  The claim as stated fails for the fetcher: with a file at the destination and a server
  that answers, \<^verbatim>\<open>download_image\<close> makes a request and overwrites the file.
\<close>

theorem fetcher_requests_existing_path:
  "files (world_with ''nft_images/Mint1.png'' ''old'') ''nft_images/Mint1.png'' = Some ''old''
   \<and> download_image (sample_env None always_serves True) url_png ''nft_images/Mint1.png'' 3
       (world_with ''nft_images/Mint1.png'' ''old'')
     = (Inr True, \<lparr>files = [''nft_images/Mint1.png'' \<mapsto> ''img''], requests = 1,
                   trace = [Get url_png]\<rparr>)"
  by (simp add: run_eval)

text \<open>
  Claim C6, as amended. A network failure on one entry never aborts the run: when every
  request for the entry's URL raises a \<^verbatim>\<open>RequestException\<close> (connection error, timeout,
  non-success status), the entry is counted failed after three requests and the loop goes
  on with the remaining entries.
\<close>

theorem failure_does_not_abort:
  assumes "resolve en item = Inr (Some (url, filepath))"
    and "filepath \<notin> dom (files w)"
    and "\<forall>k. requests w \<le> k \<and> k < requests w + 3 \<longrightarrow> net en k url = RequestException"
  shows "run_items en (item # rest) c w =
           run_items en rest (c\<lparr>failed_downloads := failed_downloads c + 1\<rparr>)
             (w\<lparr>requests := requests w + 3, trace := trace w @ retry_trace url 3 @ [Sleep (1 / 2)]\<rparr>)"
proof -
  from assms(3)
  have "\<forall>k. requests w \<le> k \<and> k < requests w + nat (3 - 0) \<longrightarrow> net en k url = RequestException"
    by simp
  from download_attempts_all_fail[OF this]
  have "download_image en url filepath 3 w =
     (Inr False, w\<lparr>requests := requests w + 3, trace := trace w @ retry_trace url 3\<rparr>)"
    by (simp add: download_image_def)
  with assms(1,2) show ?thesis by (simp add: process_item_def log_event_def)
qed

theorem failure_does_not_abort_witness:
  "run_items (sample_env None always_fails True) [entry ''Mint1'' url_png, entry_without_id url_png]
       no_downloads fresh_world
     = (Inr \<lparr>successful_downloads = 0, failed_downloads = 1, skipped_downloads = 1\<rparr>,
        \<lparr>files = Map.empty, requests = 3,
         trace = [Get url_png, Sleep 2, Get url_png, Sleep 2, Get url_png, Sleep (1 / 2)]\<rparr>)"
proof -
  let ?en = "sample_env None always_fails True"
  have r: "resolve ?en (entry ''Mint1'' url_png) = Inr (Some (url_png, ''nft_images/Mint1.png''))"
    by (rule resolve_png)
  have d: "''nft_images/Mint1.png'' \<notin> dom (files fresh_world)" by (simp add: fresh_world_def)
  have n: "\<forall>k. requests fresh_world \<le> k \<and> k < requests fresh_world + 3 \<longrightarrow>
             net ?en k url_png = RequestException"
    by (simp add: sample_env_sel always_fails_def)
  from failure_does_not_abort[OF r d n, of "[entry_without_id url_png]" no_downloads]
  show ?thesis
    by (simp add: process_item_def resolve_without_id no_downloads_def fresh_world_def numeral_3_eq_3)
qed

text \<open>
  The claim as stated fails for a failure writing the output file: it is no
  \<^verbatim>\<open>RequestException\<close>, so it leaves \<^verbatim>\<open>download_image\<close> and \<^verbatim>\<open>main\<close>. The run ends at the
  first entry, with no summary, and the second entry is never requested.
\<close>

theorem write_failure_aborts_run:
  "main (sample_env (Some (collection [entry ''Mint1'' url_png, entry ''Mint3'' url_webp]))
           always_serves False) fresh_world
     = (Inl OSError, \<lparr>files = Map.empty, requests = 1, trace = [Get url_png]\<rparr>)"
  by (simp add: run_eval)

text \<open>
  Claim C7, as amended. The driver sleeps 0.5 after each entry for which the fetcher was
  called and returned, whether the download succeeded or failed. After an entry skipped
  for a missing field, and after an entry satisfied by an existing file, it goes on to the
  next entry without sleeping: the world is as it was.
\<close>

theorem sleep_only_after_fetch:
  "(resolve en item = Inr None \<longrightarrow>
      process_item en item c w = (Inr (c\<lparr>skipped_downloads := skipped_downloads c + 1\<rparr>), w))
   \<and> (resolve en item = Inr (Some (url, filepath)) \<and> filepath \<in> dom (files w) \<longrightarrow>
      process_item en item c w = (Inr (c\<lparr>successful_downloads := successful_downloads c + 1\<rparr>), w))
   \<and> (resolve en item = Inr (Some (url, filepath)) \<and> filepath \<notin> dom (files w)
        \<and> download_image en url filepath 3 w = (Inr ok, w1) \<longrightarrow>
      snd (process_item en item c w) = w1\<lparr>trace := trace w1 @ [Sleep (1 / 2)]\<rparr>)"
  by (auto simp: process_item_def log_event_def)

theorem sleep_only_after_fetch_witness:
  "process_item (sample_env None always_serves True) (entry_without_id url_png) no_downloads fresh_world
     = (Inr (no_downloads\<lparr>skipped_downloads := skipped_downloads no_downloads + 1\<rparr>), fresh_world)
   \<and> process_item (sample_env None always_serves True) (entry ''Mint1'' url_png) no_downloads
       (world_with ''nft_images/Mint1.png'' ''old'')
     = (Inr (no_downloads\<lparr>successful_downloads := successful_downloads no_downloads + 1\<rparr>),
        world_with ''nft_images/Mint1.png'' ''old'')
   \<and> snd (process_item (sample_env None always_serves True) (entry ''Mint1'' url_png) no_downloads
            fresh_world)
     = \<lparr>files = [''nft_images/Mint1.png'' \<mapsto> ''img''], requests = 1,
        trace = [Get url_png, Sleep (1 / 2)]\<rparr>"
proof -
  let ?en = "sample_env None always_serves True"
  let ?old = "world_with ''nft_images/Mint1.png'' ''old''"
  let ?w1 = "\<lparr>files = [''nft_images/Mint1.png'' \<mapsto> ''img''], requests = 1, trace = [Get url_png]\<rparr>"
  have skip: "resolve ?en (entry_without_id url_png) = Inr None" by (rule resolve_without_id)
  have r: "resolve ?en (entry ''Mint1'' url_png) = Inr (Some (url_png, ''nft_images/Mint1.png''))"
    by (rule resolve_png)
  have there: "''nft_images/Mint1.png'' \<in> dom (files ?old)" by (simp add: world_with_def)
  have absent: "''nft_images/Mint1.png'' \<notin> dom (files fresh_world)" by (simp add: fresh_world_def)
  have dl: "download_image ?en url_png ''nft_images/Mint1.png'' 3 fresh_world = (Inr True, ?w1)"
    by (simp add: run_eval)
  from sleep_only_after_fetch[of ?en "entry_without_id url_png" no_downloads fresh_world] skip
  have a: "process_item ?en (entry_without_id url_png) no_downloads fresh_world
     = (Inr (no_downloads\<lparr>skipped_downloads := skipped_downloads no_downloads + 1\<rparr>), fresh_world)"
    by blast
  from sleep_only_after_fetch[of ?en "entry ''Mint1'' url_png" no_downloads ?old url_png
      "''nft_images/Mint1.png''"] r there
  have b: "process_item ?en (entry ''Mint1'' url_png) no_downloads ?old
     = (Inr (no_downloads\<lparr>successful_downloads := successful_downloads no_downloads + 1\<rparr>), ?old)"
    by blast
  from sleep_only_after_fetch[of ?en "entry ''Mint1'' url_png" no_downloads fresh_world url_png
      "''nft_images/Mint1.png''" True ?w1] r absent dl
  have "snd (process_item ?en (entry ''Mint1'' url_png) no_downloads fresh_world)
     = ?w1\<lparr>trace := trace ?w1 @ [Sleep (1 / 2)]\<rparr>"
    by blast
  with a b show ?thesis by simp
qed

text \<open>
  The claim as stated fails on a manifest whose only entry has no identifier, and on one
  whose only entry is satisfied by an existing file: each run ends with its summary and
  has not slept (the trace is empty).
\<close>

theorem no_sleep_after_skip:
  "main (sample_env (Some (collection [entry_without_id url_png])) always_serves True) fresh_world
     = (Inr (Some (\<lparr>successful_downloads = 0, failed_downloads = 0, skipped_downloads = 1\<rparr>, 1)),
        \<lparr>files = Map.empty, requests = 0, trace = []\<rparr>)
   \<and> main (sample_env (Some (collection [entry ''Mint1'' url_png])) always_serves True)
        (world_with ''nft_images/Mint1.png'' ''old'')
     = (Inr (Some (\<lparr>successful_downloads = 1, failed_downloads = 0, skipped_downloads = 0\<rparr>, 1)),
        \<lparr>files = [''nft_images/Mint1.png'' \<mapsto> ''old''], requests = 0, trace = []\<rparr>)"
  by (simp add: run_eval)

text \<open>
  Claim C8, as amended. If a run reaches its summary with no failed entry, running again
  with the same manifest on the world the first run left reaches the same summary and
  leaves that world exactly as it is: the same files, no request, no sleep. (An entry that
  failed is requested again by the next run.)
\<close>

theorem rerun_after_clean_run:
  assumes "main en w = (Inr (Some (c, n)), w1)" and "failed_downloads c = 0"
  shows "main en w1 = (Inr (Some (c, n)), w1)"
proof -
  from assms(1) obtain items where it: "manifest_items (load_collection_data en) = Inr items"
    and run: "run_items en items no_downloads w = (Inr c, w1)" and n: "n = length items"
    and pre: "mkdir_ok en" "truthy (load_collection_data en)"
    by (auto simp: main_def Let_def split: if_splits sum.splits prod.splits)
  from assms(2) have "failed_downloads c = failed_downloads no_downloads"
    by (simp add: no_downloads_def)
  from run_items_again[OF run this subset_refl]
  have "run_items en items no_downloads w1 = (Inr c, w1)" .
  with it n pre show ?thesis by (simp add: main_def)
qed

theorem rerun_after_clean_run_witness:
  "main (sample_env (Some (collection [entry ''Mint1'' url_png, entry_without_id url_png]))
           always_serves True) fresh_world
     = (Inr (Some (\<lparr>successful_downloads = 1, failed_downloads = 0, skipped_downloads = 1\<rparr>, 2)),
        \<lparr>files = [''nft_images/Mint1.png'' \<mapsto> ''img''], requests = 1,
         trace = [Get url_png, Sleep (1 / 2)]\<rparr>)
   \<and> main (sample_env (Some (collection [entry ''Mint1'' url_png, entry_without_id url_png]))
           always_serves True)
        \<lparr>files = [''nft_images/Mint1.png'' \<mapsto> ''img''], requests = 1,
         trace = [Get url_png, Sleep (1 / 2)]\<rparr>
     = (Inr (Some (\<lparr>successful_downloads = 1, failed_downloads = 0, skipped_downloads = 1\<rparr>, 2)),
        \<lparr>files = [''nft_images/Mint1.png'' \<mapsto> ''img''], requests = 1,
         trace = [Get url_png, Sleep (1 / 2)]\<rparr>)"
proof -
  let ?en = "sample_env (Some (collection [entry ''Mint1'' url_png, entry_without_id url_png]))
           always_serves True"
  let ?c = "\<lparr>successful_downloads = 1, failed_downloads = 0, skipped_downloads = 1\<rparr>"
  let ?w1 = "\<lparr>files = [''nft_images/Mint1.png'' \<mapsto> ''img''], requests = 1,
         trace = [Get url_png, Sleep (1 / 2)]\<rparr>"
  have first: "main ?en fresh_world = (Inr (Some (?c, 2)), ?w1)" by (simp add: run_eval)
  have clean: "failed_downloads ?c = 0" by simp
  from rerun_after_clean_run[OF first clean] first show ?thesis by simp
qed

text \<open>
  The claim as stated fails when an entry failed in the first run: here the server is down
  for the three requests of the first run, which leaves no file, and up afterwards; the
  second run makes a fourth request and creates the file.
\<close>

theorem rerun_after_failure_fetches:
  "main (sample_env (Some (collection [entry ''Mint1'' url_png])) down_then_up True) fresh_world
     = (Inr (Some (\<lparr>successful_downloads = 0, failed_downloads = 1, skipped_downloads = 0\<rparr>, 1)),
        \<lparr>files = Map.empty, requests = 3,
         trace = [Get url_png, Sleep 2, Get url_png, Sleep 2, Get url_png, Sleep (1 / 2)]\<rparr>)
   \<and> main (sample_env (Some (collection [entry ''Mint1'' url_png])) down_then_up True)
        \<lparr>files = Map.empty, requests = 3,
         trace = [Get url_png, Sleep 2, Get url_png, Sleep 2, Get url_png, Sleep (1 / 2)]\<rparr>
     = (Inr (Some (\<lparr>successful_downloads = 1, failed_downloads = 0, skipped_downloads = 0\<rparr>, 1)),
        \<lparr>files = [''nft_images/Mint1.png'' \<mapsto> ''img''], requests = 4,
         trace = [Get url_png, Sleep 2, Get url_png, Sleep 2, Get url_png, Sleep (1 / 2),
                  Get url_png, Sleep (1 / 2)]\<rparr>)"
  by (simp add: run_eval)

section \<open>Properties of extension inference\<close>

lemma split_aux_unfold:
  "sep \<noteq> [] \<Longrightarrow>
   split_aux sep acc s =
     (rev acc @ before_first sep s) # (if contains sep s then split_aux sep [] (after_first sep s) else [])"
proof (induction s arbitrary: acc)
  case Nil
  then show ?case by simp
next
  case (Cons c cs)
  show ?case
  proof (cases "prefix sep (c # cs)")
    case True
    from Cons.prems have "drop (length sep) (c # cs) = drop (length sep - 1) cs"
      by (cases sep) simp_all
    with True Cons.prems show ?thesis by simp
  next
    case False
    with Cons.IH[OF Cons.prems, of "c # acc"] Cons.prems show ?thesis by simp
  qed
qed

lemma py_split_first: "sep \<noteq> [] \<Longrightarrow> py_index (py_split s sep) 0 = Inr (before_first sep s)"
  by (subst py_split_def, subst split_aux_unfold) (simp_all add: py_index_def)

lemma py_split_second:
  "sep \<noteq> [] \<Longrightarrow> contains sep s \<Longrightarrow>
   py_index (py_split s sep) 1 = Inr (before_first sep (after_first sep s))"
proof -
  assume sep: "sep \<noteq> []" and c: "contains sep s"
  have "py_split s sep = before_first sep s # split_aux sep [] (after_first sep s)"
    using c by (simp add: py_split_def split_aux_unfold[OF sep, of "[]" s])
  also have "split_aux sep [] (after_first sep s) = before_first sep (after_first sep s) #
     (if contains sep (after_first sep s) then split_aux sep [] (after_first sep (after_first sep s)) else [])"
    by (subst split_aux_unfold[OF sep]) simp
  finally show ?thesis by (simp add: py_index_def)
qed

lemma before_first_char: "before_first [c] s = before_char c s"
  by (induction s) (auto simp: before_char_def)

lemma contains_decompose:
  "contains sep s \<Longrightarrow> s = before_first sep s @ sep @ after_first sep s"
  by (induction s) (auto simp: prefix_def)

lemma ext_param_value:
  assumes "urlparse pl url = Inr parsed" and "contains ''?ext='' url"
  shows "get_file_extension_from_url pl url =
           Inr (''.'' @ before_char CHR ''&'' (before_first ''?ext='' (after_first ''?ext='' url)))"
  using assms py_split_second[of "''?ext=''" url]
    py_split_first[of "''&''" "before_first ''?ext='' (after_first ''?ext='' url)"]
  by (simp add: get_file_extension_from_url_def before_first_char)

lemma first_ext_occurrence:
  assumes "\<not> contains ''?ext='' pre"
  shows "contains ''?ext='' (pre @ ''?ext='' @ rest) \<and> after_first ''?ext='' (pre @ ''?ext='' @ rest) = rest"
proof -
  define sep where "sep = ''?ext=''"
  have straddle: "\<not> prefix sep (a # p @ sep @ rest)" if np: "\<not> prefix sep (a # p)" for a p
  proof
    assume p: "prefix sep (a # p @ sep @ rest)"
    show False
    proof (cases p)
      case Nil
      with p show False by (simp add: sep_def)
    next
      case p1: (Cons b1 q1)
      show False
      proof (cases q1)
        case Nil
        with p p1 show False by (simp add: sep_def)
      next
        case p2: (Cons b2 q2)
        show False
        proof (cases q2)
          case Nil
          with p p1 p2 show False by (simp add: sep_def)
        next
          case p3: (Cons b3 q3)
          show False
          proof (cases q3)
            case Nil
            with p p1 p2 p3 show False by (simp add: sep_def)
          next
            case (Cons b4 q4)
            with p p1 p2 p3 np show False by (simp add: sep_def)
          qed
        qed
      qed
    qed
  qed
  have start: "prefix sep (sep @ rest)" and len: "drop (length sep) (sep @ rest) = rest" and ne: "sep \<noteq> []"
    by (simp_all add: sep_def)
  have "\<not> contains sep p \<Longrightarrow> contains sep (p @ sep @ rest) \<and> after_first sep (p @ sep @ rest) = rest" for p
  proof (induction p)
    case Nil
    obtain c cs where cs: "sep @ rest = c # cs" using ne by (cases "sep @ rest") auto
    with start len show ?case by simp
  next
    case (Cons a p)
    then have "\<not> prefix sep (a # p)" and nc: "\<not> contains sep p" by simp_all
    from straddle[OF this(1)] Cons.IH[OF nc] show ?case by simp
  qed
  from this[of pre] assms show ?thesis by (simp add: sep_def)
qed

lemma before_first_none: "\<not> contains sep s \<Longrightarrow> before_first sep s = s"
  by (induction s) auto

lemma splitext_ext_spec:
  "take 1 (last_segment p) \<noteq> ''.'' \<Longrightarrow> splitext_ext p = spec_path_ext p"
  by (cases "last_segment p") (auto simp: splitext_ext_def spec_path_ext_def Let_def)

text \<open>
  Claim C2, as amended. For every URL that \<^verbatim>\<open>urlparse\<close> accepts the three steps apply in
  order: if the URL contains \<^verbatim>\<open>?ext=\<close>, the result is a dot followed by the text after the
  first \<^verbatim>\<open>?ext=\<close> up to the next \<^verbatim>\<open>&\<close>, the next \<^verbatim>\<open>?ext=\<close> or the end of the string
  (which is the specification's value when \<^verbatim>\<open>?ext=\<close> occurs once); otherwise it is the
  \<^verbatim>\<open>os.path.splitext\<close> extension of the path component when that is not empty (the
  specification's substring from the last dot of the last segment, unless the segment
  starts with a dot); otherwise it is \<^verbatim>\<open>.png\<close>. A URL that \<^verbatim>\<open>urlparse\<close> rejects makes the
  function raise. The three examples of the specification hold.
\<close>

theorem extension_policy:
  "(urlparse pl url = Inr parsed \<longrightarrow>
      get_file_extension_from_url pl url =
        Inr (if contains ''?ext='' url
             then ''.'' @ before_char CHR ''&'' (before_first ''?ext='' (after_first ''?ext='' url))
             else if splitext_ext (path parsed) \<noteq> [] then splitext_ext (path parsed)
             else ''.png''))
   \<and> (urlparse pl url = Inl e \<longrightarrow> get_file_extension_from_url pl url = Inl e)
   \<and> (\<not> contains ''?ext='' (after_first ''?ext='' url) \<longrightarrow>
        before_char CHR ''&'' (before_first ''?ext='' (after_first ''?ext='' url)) = spec_ext_value url)
   \<and> (take 1 (last_segment p) \<noteq> ''.'' \<longrightarrow> splitext_ext p = spec_path_ext p)
   \<and> get_file_extension_from_url pl ''https://x.com/img?ext=gif'' = Inr ''.gif''
   \<and> get_file_extension_from_url pl ''https://x.com/path/file.jpeg'' = Inr ''.jpeg''
   \<and> get_file_extension_from_url pl ''https://x.com/path/noext'' = Inr ''.png''"
proof (intro conjI impI)
  assume ok: "urlparse pl url = Inr parsed"
  show "get_file_extension_from_url pl url =
        Inr (if contains ''?ext='' url
             then ''.'' @ before_char CHR ''&'' (before_first ''?ext='' (after_first ''?ext='' url))
             else if splitext_ext (path parsed) \<noteq> [] then splitext_ext (path parsed)
             else ''.png'')"
  proof (cases "contains ''?ext='' url")
    case True
    with ext_param_value[OF ok True] show ?thesis by simp
  next
    case False
    with ok show ?thesis by (simp add: get_file_extension_from_url_def)
  qed
next
  assume "urlparse pl url = Inl e"
  then show "get_file_extension_from_url pl url = Inl e"
    by (simp add: get_file_extension_from_url_def)
next
  assume "\<not> contains ''?ext='' (after_first ''?ext='' url)"
  then show "before_char CHR ''&'' (before_first ''?ext='' (after_first ''?ext='' url)) = spec_ext_value url"
    by (simp add: before_first_none spec_ext_value_def)
next
  assume "take 1 (last_segment p) \<noteq> ''.''"
  then show "splitext_ext p = spec_path_ext p" by (rule splitext_ext_spec)
next
  show "get_file_extension_from_url pl ''https://x.com/img?ext=gif'' = Inr ''.gif''"
    by (simp add: url_eval)
next
  show "get_file_extension_from_url pl ''https://x.com/path/file.jpeg'' = Inr ''.jpeg''"
    by (simp add: url_eval)
next
  show "get_file_extension_from_url pl ''https://x.com/path/noext'' = Inr ''.png''"
    by (simp add: url_eval)
qed

lemma urlparse_sample:
  "urlparse lib_permissive ''https://x.com/img?ext=&v=1'' =
     Inr \<lparr>scheme = ''https'', netloc = ''x.com'', path = ''/img'', params = [],
          query = ''ext=&v=1'', fragment = []\<rparr>"
  by (simp add: url_eval lib_permissive_def)

lemma urlparse_rejects_open_bracket: "urlparse pl ''http://[?ext=gif'' = Inl ValueError"
  by (simp add: url_eval)

theorem extension_policy_witness:
  "get_file_extension_from_url lib_permissive ''https://x.com/img?ext=&v=1'' = Inr ''.''
   \<and> get_file_extension_from_url lib_permissive ''http://[?ext=gif'' = Inl ValueError
   \<and> spec_ext_value ''https://x.com/img?ext=&v=1'' = []
   \<and> splitext_ext ''/path/file.jpeg'' = spec_path_ext ''/path/file.jpeg''"
proof -
  let ?u = "''https://x.com/img?ext=&v=1''"
  let ?parsed = "\<lparr>scheme = ''https'', netloc = ''x.com'', path = ''/img'', params = [],
          query = ''ext=&v=1'', fragment = []\<rparr>"
  note pol = extension_policy[of lib_permissive ?u ?parsed ValueError "''/path/file.jpeg''"]
  have c: "contains ''?ext='' ?u" by simp
  have once: "\<not> contains ''?ext='' (after_first ''?ext='' ?u)" by simp
  have seg: "take 1 (last_segment ''/path/file.jpeg'') \<noteq> ''.''" by (simp add: last_segment_def)
  from pol urlparse_sample c
  have a: "get_file_extension_from_url lib_permissive ?u =
      Inr (''.'' @ before_char CHR ''&'' (before_first ''?ext='' (after_first ''?ext='' ?u)))"
    by simp
  from pol once
  have v: "before_char CHR ''&'' (before_first ''?ext='' (after_first ''?ext='' ?u)) = spec_ext_value ?u"
    by blast
  have sv: "spec_ext_value ?u = []" by (simp add: spec_ext_value_def before_char_def)
  from pol seg have p: "splitext_ext ''/path/file.jpeg'' = spec_path_ext ''/path/file.jpeg''"
    by blast
  from extension_policy[of lib_permissive "''http://[?ext=gif''" ?parsed ValueError "''/path/file.jpeg''"]
    urlparse_rejects_open_bracket[of lib_permissive]
  have r: "get_file_extension_from_url lib_permissive ''http://[?ext=gif'' = Inl ValueError"
    by blast
  from a v sv p r show ?thesis by simp
qed

text \<open>
  The claim as stated fails in three places: with a second \<^verbatim>\<open>?ext=\<close> the value ends there
  and not at the next \<^verbatim>\<open>&\<close> or the end of the string; a URL that \<^verbatim>\<open>urlparse\<close> rejects
  gives no extension at all; and a last segment that is only a dot-file name has no
  extension for \<^verbatim>\<open>os.path.splitext\<close>, so the default applies.
\<close>

theorem extension_policy_counterexample:
  "get_file_extension_from_url lib_permissive ''https://x.com/i?ext=gif?ext=png'' = Inr ''.gif''
   \<and> ''.'' @ spec_ext_value ''https://x.com/i?ext=gif?ext=png'' = ''.gif?ext=png''
   \<and> get_file_extension_from_url lib_permissive ''http://[?ext=gif'' = Inl ValueError
   \<and> get_file_extension_from_url lib_permissive ''https://x.com/.hidden'' = Inr ''.png''
   \<and> spec_path_ext ''/.hidden'' = ''.hidden''"
  by (simp add: url_eval spec_ext_value_def spec_path_ext_def)

text \<open>
  Claim C9, as amended. For every URL that \<^verbatim>\<open>urlparse\<close> accepts and in which the first
  occurrence of \<^verbatim>\<open>?ext=\<close> is immediately followed by \<^verbatim>\<open>&\<close> or by the end of the string, the
  result is the one-character string \<^verbatim>\<open>.\<close>: neither the extension of the path component nor
  the default \<^verbatim>\<open>.png\<close>.
\<close>

theorem empty_ext_value:
  assumes "urlparse pl url = Inr parsed"
    and "url = pre @ ''?ext='' @ rest" and "\<not> contains ''?ext='' pre"
    and "rest = [] \<or> hd rest = CHR ''&''"
  shows "get_file_extension_from_url pl url = Inr ''.''"
proof -
  from first_ext_occurrence[OF assms(3), of rest] assms(2)
  have c: "contains ''?ext='' url" and a: "after_first ''?ext='' url = rest" by simp_all
  from assms(4) have "before_char CHR ''&'' (before_first ''?ext='' rest) = []"
    by (cases rest) (auto simp: before_char_def)
  with ext_param_value[OF assms(1) c] a show ?thesis by simp
qed

theorem empty_ext_value_witness:
  "get_file_extension_from_url lib_permissive ''https://x.com/img.jpeg?ext=&v=1'' = Inr ''.''
   \<and> get_file_extension_from_url lib_permissive ''https://x.com/img.jpeg?ext='' = Inr ''.''"
proof -
  have p1: "urlparse lib_permissive ''https://x.com/img.jpeg?ext=&v=1'' =
     Inr \<lparr>scheme = ''https'', netloc = ''x.com'', path = ''/img.jpeg'', params = [],
          query = ''ext=&v=1'', fragment = []\<rparr>"
    by (simp add: url_eval lib_permissive_def)
  have p2: "urlparse lib_permissive ''https://x.com/img.jpeg?ext='' =
     Inr \<lparr>scheme = ''https'', netloc = ''x.com'', path = ''/img.jpeg'', params = [],
          query = ''ext='', fragment = []\<rparr>"
    by (simp add: url_eval lib_permissive_def)
  have d1: "''https://x.com/img.jpeg?ext=&v=1'' = ''https://x.com/img.jpeg'' @ ''?ext='' @ ''&v=1''"
    and d2: "''https://x.com/img.jpeg?ext='' = ''https://x.com/img.jpeg'' @ ''?ext='' @ []"
    by simp_all
  have n: "\<not> contains ''?ext='' ''https://x.com/img.jpeg''" by simp
  have f1: "''&v=1'' = [] \<or> hd ''&v=1'' = CHR ''&''" and f2: "[] = [] \<or> hd [] = CHR ''&''"
    by simp_all
  from empty_ext_value[OF p1 d1 n f1] empty_ext_value[OF p2 d2 n f2] show ?thesis by blast
qed

text \<open>
  The claim as stated fails on a URL that \<^verbatim>\<open>urlparse\<close> rejects, where the function raises
  before it looks for \<^verbatim>\<open>?ext=\<close>, and on a URL in which an earlier \<^verbatim>\<open>?ext=\<close> carries a value.
\<close>

theorem empty_ext_value_counterexample:
  "get_file_extension_from_url lib_permissive ''http://[?ext='' = Inl ValueError
   \<and> get_file_extension_from_url lib_permissive ''https://x.com/i?ext=gif?ext='' = Inr ''.gif''"
  by (simp add: url_eval)

end
